theory Spec2Isabelle
  imports Main "HOL-Library.Monad_Syntax"
begin

section \<open>Code points and cells\<close>

text \<open>
  The module \<^verbatim>\<open>src/ascii/cjk.ts\<close> works on Unicode code points (\<^verbatim>\<open>ch.codePointAt(0)\<close>,
  a JavaScript number) and on strings. A code point is an \<open>int\<close>. A string is the list
  of the code points that \<^verbatim>\<open>for (const ch of str)\<close> yields, in order; inside that loop
  \<^verbatim>\<open>codePointAt(0)\<close> is never \<^verbatim>\<open>undefined\<close>, so the source's
  \<^verbatim>\<open>if (code === undefined) continue\<close> has no branch of its own in the model.
\<close>

type_synonym codepoint = int
type_synonym jsstring = "codepoint list"

definition CJK_PAD :: jsstring where
  "CJK_PAD = [0xE000]"

definition SPACE :: jsstring where
  "SPACE = [0x20]"

section \<open>Classification tables\<close>

definition isFullwidthChar :: "codepoint \<Rightarrow> bool" where
  "isFullwidthChar code \<longleftrightarrow>
    (code \<ge> 0x1100 \<and> code \<le> 0x115f) \<or>
    (code \<ge> 0x2e80 \<and> code \<le> 0x2eff) \<or>
    (code \<ge> 0x2f00 \<and> code \<le> 0x2fdf) \<or>
    (code \<ge> 0x3000 \<and> code \<le> 0x303f) \<or>
    (code \<ge> 0x3040 \<and> code \<le> 0x309f) \<or>
    (code \<ge> 0x30a0 \<and> code \<le> 0x30ff) \<or>
    (code \<ge> 0x3100 \<and> code \<le> 0x312f) \<or>
    (code \<ge> 0x3130 \<and> code \<le> 0x318f) \<or>
    (code \<ge> 0x3190 \<and> code \<le> 0x31ff) \<or>
    (code \<ge> 0x3200 \<and> code \<le> 0x33ff) \<or>
    (code \<ge> 0x3400 \<and> code \<le> 0x4dbf) \<or>
    (code \<ge> 0x4e00 \<and> code \<le> 0x9fff) \<or>
    (code \<ge> 0xac00 \<and> code \<le> 0xd7af) \<or>
    (code \<ge> 0xf900 \<and> code \<le> 0xfaff) \<or>
    (code \<ge> 0xfe30 \<and> code \<le> 0xfe4f) \<or>
    (code \<ge> 0xff00 \<and> code \<le> 0xff60) \<or>
    (code \<ge> 0xffe0 \<and> code \<le> 0xffe6) \<or>
    code = 0x1f004 \<or> code = 0x1f0cf \<or> code = 0x1f18e \<or>
    (code \<ge> 0x1f191 \<and> code \<le> 0x1f19a) \<or>
    (code \<ge> 0x1f1e0 \<and> code \<le> 0x1f1ff) \<or>
    (code \<ge> 0x1f200 \<and> code \<le> 0x1f202) \<or>
    (code \<ge> 0x1f300 \<and> code \<le> 0x1f64f) \<or>
    (code \<ge> 0x1f680 \<and> code \<le> 0x1f6ff) \<or>
    (code \<ge> 0x1f900 \<and> code \<le> 0x1f9ff) \<or>
    (code \<ge> 0x1fa00 \<and> code \<le> 0x1fa6f) \<or>
    (code \<ge> 0x1fa70 \<and> code \<le> 0x1faff) \<or>
    code = 0x231a \<or> code = 0x231b \<or>
    (code \<ge> 0x23e9 \<and> code \<le> 0x23ec) \<or>
    code = 0x23f0 \<or> code = 0x23f3 \<or>
    code = 0x25fd \<or> code = 0x25fe \<or>
    code = 0x2614 \<or> code = 0x2615 \<or>
    (code \<ge> 0x2648 \<and> code \<le> 0x2653) \<or>
    code = 0x267f \<or> code = 0x2693 \<or>
    code = 0x26a1 \<or>
    code = 0x26aa \<or> code = 0x26ab \<or>
    code = 0x26bd \<or> code = 0x26be \<or>
    code = 0x26c4 \<or> code = 0x26c5 \<or>
    code = 0x26ce \<or> code = 0x26d4 \<or>
    code = 0x26ea \<or> code = 0x26f2 \<or> code = 0x26f3 \<or>
    code = 0x26f5 \<or> code = 0x26fa \<or> code = 0x26fd \<or>
    code = 0x2705 \<or>
    code = 0x270a \<or> code = 0x270b \<or>
    code = 0x2728 \<or>
    code = 0x274c \<or> code = 0x274e \<or>
    (code \<ge> 0x2753 \<and> code \<le> 0x2755) \<or>
    code = 0x2757 \<or>
    (code \<ge> 0x2795 \<and> code \<le> 0x2797) \<or>
    code = 0x27b0 \<or> code = 0x27bf \<or>
    code = 0x2b1b \<or> code = 0x2b1c \<or>
    code = 0x2b50 \<or> code = 0x2b55 \<or>
    code = 0x3030 \<or> code = 0x303d \<or>
    code = 0x3297 \<or> code = 0x3299 \<or>
    (code \<ge> 0x20000 \<and> code \<le> 0x2a6df) \<or>
    (code \<ge> 0x2a700 \<and> code \<le> 0x2b73f) \<or>
    (code \<ge> 0x2b740 \<and> code \<le> 0x2b81f) \<or>
    (code \<ge> 0x2b820 \<and> code \<le> 0x2ceaf) \<or>
    (code \<ge> 0x2ceb0 \<and> code \<le> 0x2ebef) \<or>
    (code \<ge> 0x2f800 \<and> code \<le> 0x2fa1f) \<or>
    (code \<ge> 0x30000 \<and> code \<le> 0x3134f) \<or>
    (code \<ge> 0x31350 \<and> code \<le> 0x323af) \<or>
    (code \<ge> 0x2ebf0 \<and> code \<le> 0x2f7ff)"

definition isEmojiModifiable :: "codepoint \<Rightarrow> bool" where
  "isEmojiModifiable code \<longleftrightarrow>
    code = 0x26a0 \<or>
    code = 0x2702 \<or>
    code = 0x2708 \<or> code = 0x2709 \<or>
    code = 0x270c \<or> code = 0x270d \<or>
    code = 0x270f \<or> code = 0x2712 \<or>
    code = 0x2714 \<or> code = 0x2716 \<or>
    code = 0x271d \<or> code = 0x2721 \<or>
    code = 0x2733 \<or> code = 0x2734 \<or>
    code = 0x2744 \<or> code = 0x2747 \<or>
    code = 0x2763 \<or> code = 0x2764 \<or>
    code = 0x27a1 \<or>
    code = 0x2934 \<or> code = 0x2935 \<or>
    (code \<ge> 0x2b05 \<and> code \<le> 0x2b07) \<or>
    code = 0x00a9 \<or>
    code = 0x00ae \<or>
    code = 0x2122 \<or>
    code = 0x2139 \<or>
    (code \<ge> 0x2194 \<and> code \<le> 0x2199) \<or>
    (code \<ge> 0x21a9 \<and> code \<le> 0x21aa) \<or>
    code = 0x231a \<or> code = 0x231b \<or>
    (code \<ge> 0x23e9 \<and> code \<le> 0x23f3) \<or>
    (code \<ge> 0x23f8 \<and> code \<le> 0x23fa) \<or>
    code = 0x25aa \<or> code = 0x25ab \<or>
    code = 0x25b6 \<or> code = 0x25c0 \<or>
    code = 0x25fb \<or> code = 0x25fc \<or>
    code = 0x2600 \<or> code = 0x2601 \<or>
    (code \<ge> 0x2602 \<and> code \<le> 0x2604) \<or>
    code = 0x260e \<or>
    code = 0x2611 \<or>
    (code \<ge> 0x2618 \<and> code \<le> 0x261d) \<or>
    code = 0x2620 \<or>
    code = 0x2622 \<or> code = 0x2623 \<or>
    code = 0x2626 \<or> code = 0x262a \<or>
    code = 0x262e \<or> code = 0x262f \<or>
    (code \<ge> 0x2638 \<and> code \<le> 0x263a) \<or>
    code = 0x2640 \<or> code = 0x2642 \<or>
    (code \<ge> 0x2660 \<and> code \<le> 0x2668) \<or>
    code = 0x267b \<or> code = 0x267e"

definition isZeroWidth :: "codepoint \<Rightarrow> bool" where
  "isZeroWidth code \<longleftrightarrow>
    (code \<ge> 0xfe00 \<and> code \<le> 0xfe0f) \<or>
    code = 0x200b \<or>
    code = 0x200c \<or>
    code = 0x200d \<or>
    code = 0xfeff \<or>
    (code \<ge> 0xe0100 \<and> code \<le> 0xe01ef) \<or>
    (code \<ge> 0x0300 \<and> code \<le> 0x036f) \<or>
    (code \<ge> 0x0483 \<and> code \<le> 0x0489) \<or>
    (code \<ge> 0x0591 \<and> code \<le> 0x05bd) \<or>
    (code \<ge> 0x0610 \<and> code \<le> 0x061a) \<or>
    (code \<ge> 0x064b \<and> code \<le> 0x065f) \<or>
    (code \<ge> 0x20d0 \<and> code \<le> 0x20ff)"

section \<open>Width accumulator\<close>

text \<open>
  \<^verbatim>\<open>displayWidth\<close> threads two locals through its loop: the running width \<open>w\<close> and
  the flag \<open>prevWasNarrowEmoji\<close>. \<open>dw_step\<close> is one iteration of the loop body on the
  pair of them; \<open>displayWidth\<close> runs it from \<open>(0, False)\<close> over the code points of the
  string and returns \<open>w\<close>.
\<close>

definition dw_step :: "int \<times> bool \<Rightarrow> codepoint \<Rightarrow> int \<times> bool" where
  "dw_step s code =
    (case s of (w, prevWasNarrowEmoji) \<Rightarrow>
      if code = 0xfe0f then
        (if prevWasNarrowEmoji then (w + 1, False) else (w, prevWasNarrowEmoji))
      else if isZeroWidth code then (w, prevWasNarrowEmoji)
      else if isFullwidthChar code then (w + 2, False)
      else (w + 1, isEmojiModifiable code))"

definition displayWidth :: "jsstring \<Rightarrow> int" where
  "displayWidth str = fst (foldl dw_step (0, False) str)"

section \<open>Grids\<close>

text \<open>
  A canvas is column-major, \<^verbatim>\<open>canvas[x][y]\<close>: a list of columns, each a list of cells,
  each cell a string. The types \<^verbatim>\<open>Canvas\<close>, \<^verbatim>\<open>RoleCanvas\<close> and \<^verbatim>\<open>CharRole\<close> are
  declared in \<^verbatim>\<open>./types.ts\<close>; the role type is a parameter \<open>'r\<close> here. The columns are
  taken to be distinct arrays (no column is shared between two indices).

  \<open>grid_height\<close> is the source's \<^verbatim>\<open>canvas[0]?.length ?? 0\<close>. A grid is \<open>rect\<close> when
  every column has that height: a grid has one width and one height (the tests build it
  with \<^verbatim>\<open>mkCanvas\<close>), and the source relies on it when it checks every row index against
  the height of column 0 only.

  \<open>cell_get\<close> and \<open>cell_set\<close> are the array accesses \<^verbatim>\<open>g[cx]![y]\<close> and
  \<^verbatim>\<open>g[cx]![y] = v\<close>. They return \<open>None\<close> when an index lies outside the arrays.
  JavaScript throws a TypeError when the column \<^verbatim>\<open>g[cx]\<close> is missing; when only the row
  index is outside the column it would read \<^verbatim>\<open>undefined\<close> or grow the column. The model
  reports both as \<open>None\<close>, so that a run which returns \<open>Some\<close> has made in-range
  accesses only.
\<close>

type_synonym 'a grid = "'a list list"
type_synonym Canvas = "jsstring grid"
type_synonym 'r RoleCanvas = "'r grid"

definition grid_height :: "'a grid \<Rightarrow> int" where
  "grid_height g = (case g of [] \<Rightarrow> 0 | col0 # _ \<Rightarrow> int (length col0))"

definition rect :: "'a grid \<Rightarrow> bool" where
  "rect g \<longleftrightarrow> (\<forall>col \<in> set g. int (length col) = grid_height g)"

definition in_range :: "'a grid \<Rightarrow> int \<Rightarrow> int \<Rightarrow> bool" where
  "in_range g cx y \<longleftrightarrow>
     0 \<le> cx \<and> cx < int (length g) \<and> 0 \<le> y \<and> y < int (length (g ! nat cx))"

definition cell_get :: "'a grid \<Rightarrow> int \<Rightarrow> int \<Rightarrow> 'a option" where
  "cell_get g cx y = (if in_range g cx y then Some (g ! nat cx ! nat y) else None)"

definition cell_set :: "'a grid \<Rightarrow> int \<Rightarrow> int \<Rightarrow> 'a \<Rightarrow> 'a grid option" where
  "cell_set g cx y v =
     (if in_range g cx y then Some (g[nat cx := (g ! nat cx)[nat y := v]]) else None)"

section \<open>Grid text writer\<close>

text \<open>
  The locals of \<^verbatim>\<open>drawCJKText\<close> that change in its loop, together with the two grids
  it mutates in place.
\<close>

record 'r draw_state =
  canvas :: Canvas
  roleCanvas :: "'r RoleCanvas option"
  offset :: int
  lastWrittenCx :: int
  lastWasFullwidth :: bool

text \<open>
  The bounds test that the source writes out four times:
  \<^verbatim>\<open>px >= 0 && px < canvas.length && y >= 0 && y < h\<close>.
\<close>

definition in_grid :: "Canvas \<Rightarrow> int \<Rightarrow> int \<Rightarrow> int \<Rightarrow> bool" where
  "in_grid cv h px y \<longleftrightarrow> px \<ge> 0 \<and> px < int (length cv) \<and> y \<ge> 0 \<and> y < h"

text \<open>
  Lines 234-236: the selector \<open>ch\<close> is appended to the last written cell. The source's
  \<^verbatim>\<open>?? ''\<close> covers a cell that reads as \<^verbatim>\<open>undefined\<close>, which is a read outside the
  column: \<open>None\<close> here.
\<close>

definition append_selector :: "Canvas \<Rightarrow> int \<Rightarrow> int \<Rightarrow> int \<Rightarrow> jsstring \<Rightarrow> Canvas option" where
  "append_selector cv h lw y ch =
     (if in_grid cv h lw y then do {
        old \<leftarrow> cell_get cv lw y;
        cell_set cv lw y (old @ ch)
      } else Some cv)"

text \<open>Lines 238-241 and 269-272: the padding sentinel is stored at column \<open>px\<close>.\<close>

definition write_pad :: "Canvas \<Rightarrow> int \<Rightarrow> int \<Rightarrow> int \<Rightarrow> Canvas option" where
  "write_pad cv h px y =
     (if in_grid cv h px y then cell_set cv px y CJK_PAD else Some cv)"

text \<open>Lines 255-257: the style grid, when there is one and a role was given.\<close>

definition tag_role ::
  "'r RoleCanvas option \<Rightarrow> 'r option \<Rightarrow> int \<Rightarrow> int \<Rightarrow> 'r RoleCanvas option option" where
  "tag_role rc role cx y =
     (case rc of
        None \<Rightarrow> Some rc
      | Some rg \<Rightarrow>
          (case role of
             None \<Rightarrow> Some rc
           | Some r \<Rightarrow>
               if cx < int (length rg) \<and> y < grid_height rg
               then map_option Some (cell_set rg cx y r)
               else Some rc))"

text \<open>
  Lines 250-260: the glyph \<open>ch\<close> is stored at column \<open>cx\<close> when the cell is in bounds and
  either \<open>forceOverwrite\<close> holds or the cell holds a single space. The result carries the
  two grids and the local \<open>written\<close>. With \<open>forceOverwrite\<close> the source does not read
  the cell (\<^verbatim>\<open>||\<close> short-circuits).
\<close>

definition put_glyph ::
  "bool \<Rightarrow> 'r option \<Rightarrow> int \<Rightarrow> Canvas \<Rightarrow> 'r RoleCanvas option \<Rightarrow> int \<Rightarrow> int \<Rightarrow> jsstring
     \<Rightarrow> (Canvas \<times> 'r RoleCanvas option \<times> bool) option" where
  "put_glyph forceOverwrite role h cv rc cx y ch =
     (if in_grid cv h cx y then do {
        free \<leftarrow> (if forceOverwrite then Some True
                 else map_option (\<lambda>old. old = SPACE) (cell_get cv cx y));
        if free then do {
          cv' \<leftarrow> cell_set cv cx y ch;
          rc' \<leftarrow> tag_role rc role cx y;
          Some (cv', rc', True)
        } else Some (cv, rc, False)
      } else Some (cv, rc, False))"

text \<open>One iteration of the loop of \<^verbatim>\<open>drawCJKText\<close> (lines 229-278) on code point \<open>code\<close>.\<close>

definition draw_step ::
  "int \<Rightarrow> int \<Rightarrow> bool \<Rightarrow> 'r option \<Rightarrow> int \<Rightarrow> 'r draw_state \<Rightarrow> codepoint
     \<Rightarrow> 'r draw_state option" where
  "draw_step x y forceOverwrite role h st code =
     (if code = 0xfe0f then do {
        cv1 \<leftarrow> append_selector (canvas st) h (lastWrittenCx st) y [code];
        if \<not> lastWasFullwidth st then do {
          cv2 \<leftarrow> write_pad cv1 h (x + offset st) y;
          Some (st\<lparr>canvas := cv2, offset := offset st + 1, lastWasFullwidth := True\<rparr>)
        } else Some (st\<lparr>canvas := cv1\<rparr>)
      }
      else if isZeroWidth code then Some st
      else do {
        (cv1, rc1, written) \<leftarrow>
          put_glyph forceOverwrite role h (canvas st) (roleCanvas st) (x + offset st) y [code];
        let lw = (if written then x + offset st else lastWrittenCx st);
        if isFullwidthChar code then do {
          cv2 \<leftarrow> (if written then write_pad cv1 h (x + (offset st + 1)) y else Some cv1);
          Some \<lparr>canvas = cv2, roleCanvas = rc1, offset = offset st + 2,
                lastWrittenCx = lw, lastWasFullwidth = True\<rparr>
        } else
          Some \<lparr>canvas = cv1, roleCanvas = rc1, offset = offset st + 1,
                lastWrittenCx = lw, lastWasFullwidth = False\<rparr>
      })"

fun draw_loop ::
  "int \<Rightarrow> int \<Rightarrow> bool \<Rightarrow> 'r option \<Rightarrow> int \<Rightarrow> 'r draw_state \<Rightarrow> jsstring
     \<Rightarrow> 'r draw_state option" where
  "draw_loop x y forceOverwrite role h st [] = Some st"
| "draw_loop x y forceOverwrite role h st (code # rest) =
     (case draw_step x y forceOverwrite role h st code of
        None \<Rightarrow> None
      | Some st' \<Rightarrow> draw_loop x y forceOverwrite role h st' rest)"

text \<open>The locals as lines 225-228 initialise them.\<close>

definition draw_init :: "Canvas \<Rightarrow> 'r RoleCanvas option \<Rightarrow> 'r draw_state" where
  "draw_init cv rc =
     \<lparr>canvas = cv, roleCanvas = rc, offset = 0, lastWrittenCx = - 1, lastWasFullwidth = False\<rparr>"

text \<open>
  \<^verbatim>\<open>drawCJKText(canvas, x, y, text, forceOverwrite, roleCanvas, role)\<close> returns nothing and
  mutates the two grids; the model returns them as they are after the call.
\<close>

definition drawCJKText ::
  "Canvas \<Rightarrow> int \<Rightarrow> int \<Rightarrow> jsstring \<Rightarrow> bool \<Rightarrow> 'r RoleCanvas option \<Rightarrow> 'r option
     \<Rightarrow> (Canvas \<times> 'r RoleCanvas option) option" where
  "drawCJKText cv x y text forceOverwrite rc role =
     map_option (\<lambda>st. (canvas st, roleCanvas st))
       (draw_loop x y forceOverwrite role (grid_height cv) (draw_init cv rc) text)"

section \<open>Notions used in the statements\<close>

text \<open>
  Two grids have the same shape when they have the same number of columns and columns of
  the same lengths. The writer never resizes a grid (lemma \<open>draw_step_shape\<close>).
\<close>

definition same_shape :: "'a grid \<Rightarrow> 'a grid \<Rightarrow> bool" where
  "same_shape g g' \<longleftrightarrow> length g' = length g \<and> (\<forall>i < length g. length (g' ! i) = length (g ! i))"

text \<open>The optional style grid is rectangular when it is there.\<close>

definition rc_ok :: "'r RoleCanvas option \<Rightarrow> bool" where
  "rc_ok rc = (case rc of None \<Rightarrow> True | Some rg \<Rightarrow> rect rg)"

text \<open>Reading a cell of the optional style grid.\<close>

definition rc_get :: "'r RoleCanvas option \<Rightarrow> int \<Rightarrow> int \<Rightarrow> 'r option" where
  "rc_get rc c r = (case rc of None \<Rightarrow> None | Some rg \<Rightarrow> cell_get rg c r)"

text \<open>The optional style grid before and after: both absent, or of the same shape.\<close>

definition rc_same_shape :: "'r RoleCanvas option \<Rightarrow> 'r RoleCanvas option \<Rightarrow> bool" where
  "rc_same_shape rc rc' =
     (case rc of
        None \<Rightarrow> rc' = None
      | Some rg \<Rightarrow> (case rc' of None \<Rightarrow> False | Some rg' \<Rightarrow> same_shape rg rg'))"

text \<open>
  The condition under which lines 252-259 store the glyph and set the local
  \<^verbatim>\<open>written\<close>: the target cell is in bounds, and \<^verbatim>\<open>forceOverwrite\<close> holds or the cell
  holds a single space.
\<close>

definition written_cond :: "bool \<Rightarrow> int \<Rightarrow> Canvas \<Rightarrow> int \<Rightarrow> int \<Rightarrow> bool" where
  "written_cond forceOverwrite h cv cx y \<longleftrightarrow>
     in_grid cv h cx y \<and> (forceOverwrite \<or> cell_get cv cx y = Some SPACE)"

text \<open>
  The grids of a loop state are well formed for the height \<open>h\<close> that the call read from
  column 0 at its start.
\<close>

definition grids_ok :: "int \<Rightarrow> 'r draw_state \<Rightarrow> bool" where
  "grids_ok h st \<longleftrightarrow> rect (canvas st) \<and> grid_height (canvas st) = h \<and> rc_ok (roleCanvas st)"




text \<open>
  While the loop ran over the code points \<open>pre\<close> from the state \<open>st0\<close>, an iteration on the
  glyph \<open>g\<close> had column \<open>c\<close> as its target and met \<open>written_cond\<close> there: that iteration
  stored \<open>g\<close> in column \<open>c\<close>.
\<close>

definition wrote_glyph_at ::
  "int \<Rightarrow> int \<Rightarrow> bool \<Rightarrow> 'r option \<Rightarrow> int \<Rightarrow> 'r draw_state \<Rightarrow> jsstring \<Rightarrow> int \<Rightarrow> codepoint \<Rightarrow> bool" where
  "wrote_glyph_at x y forceOverwrite role h st0 pre c g \<longleftrightarrow>
     (\<exists>pre1 pre2 s1. pre = pre1 @ g # pre2
        \<and> draw_loop x y forceOverwrite role h st0 pre1 = Some s1
        \<and> g \<noteq> 0xfe0f \<and> \<not> isZeroWidth g
        \<and> c = x + offset s1 \<and> written_cond forceOverwrite h (canvas s1) c y)"

text \<open>
  The cell at \<open>lastWrittenCx\<close> is one that this run wrote: an iteration of the run stored
  a glyph \<open>g\<close> there, and the cell now holds \<open>g\<close> followed by selectors only.
\<close>

definition own_cell ::
  "int \<Rightarrow> int \<Rightarrow> bool \<Rightarrow> 'r option \<Rightarrow> int \<Rightarrow> 'r draw_state \<Rightarrow> jsstring \<Rightarrow> 'r draw_state \<Rightarrow> bool" where
  "own_cell x y forceOverwrite role h st0 pre st \<longleftrightarrow>
     (\<exists>g n. wrote_glyph_at x y forceOverwrite role h st0 pre (lastWrittenCx st) g
        \<and> cell_get (canvas st) (lastWrittenCx st) y = Some (g # replicate n 0xfe0f))"

text \<open>
  The state in which a selector is processed belongs to a glyph that the call wrote, or no
  padding is due: either \<open>lastWasFullwidth\<close> holds, so that the selector branch stores no
  sentinel, or \<open>lastWrittenCx\<close> is in bounds and is the column just left of the current
  offset column \<open>x + offset\<close>. Lemma \<open>upgrade_ok_after_glyph\<close>: right after the iteration on
  a glyph this holds exactly when the glyph is double-width or was written; it does not
  hold at the start of the text (lemma \<open>upgrade_ok_init\<close>).
\<close>

definition upgrade_ok :: "int \<Rightarrow> int \<Rightarrow> int \<Rightarrow> 'r draw_state \<Rightarrow> bool" where
  "upgrade_ok x y h st \<longleftrightarrow>
     lastWasFullwidth st
     \<or> (in_grid (canvas st) h (lastWrittenCx st) y \<and> lastWrittenCx st + 1 = x + offset st)"


text \<open>
  Every cell that holds something other than a single space in \<open>cv\<close> holds in \<open>cv'\<close>
  either the same content, or the padding sentinel, and then it lies in row \<open>y\<close> in the
  column right after a column into which the run over \<open>pre\<close> from \<open>st0\<close>, with overwrite
  disabled, stored a glyph.
\<close>

definition kept_or_own_pad ::
  "int \<Rightarrow> int \<Rightarrow> 'r option \<Rightarrow> int \<Rightarrow> 'r draw_state \<Rightarrow> jsstring \<Rightarrow> Canvas \<Rightarrow> Canvas \<Rightarrow> bool" where
  "kept_or_own_pad x y role h st0 pre cv cv' \<longleftrightarrow>
     (\<forall>c r old. cell_get cv c r = Some old \<and> old \<noteq> SPACE \<longrightarrow>
        cell_get cv' c r = Some old
        \<or> (r = y \<and> cell_get cv' c r = Some CJK_PAD
            \<and> (\<exists>g. wrote_glyph_at x y False role h st0 pre (c - 1) g)))"

section \<open>Grid accesses\<close>



lemma same_shape_refl: "same_shape g g"
  by (simp add: same_shape_def)

lemma same_shape_trans: "same_shape g g' \<Longrightarrow> same_shape g' g'' \<Longrightarrow> same_shape g g''"
  by (simp add: same_shape_def)

lemma cell_set_shape: "cell_set g cx y v = Some g' \<Longrightarrow> same_shape g g'"
proof -
  assume a: "cell_set g cx y v = Some g'"
  then have g': "g' = g[nat cx := (g ! nat cx)[nat y := v]]"
    by (simp add: cell_set_def split: if_splits)
  have "length (g[nat cx := (g ! nat cx)[nat y := v]] ! i) = length (g ! i)" if "i < length g" for i
    using that by (cases "i = nat cx") simp_all
  then show ?thesis unfolding g' same_shape_def by simp
qed

lemma in_range_shape: "same_shape g g' \<Longrightarrow> in_range g' cx y = in_range g cx y"
proof -
  assume s: "same_shape g g'"
  show ?thesis
  proof (cases "0 \<le> cx \<and> cx < int (length g)")
    case True
    then have "nat cx < length g" by arith
    then have "length (g' ! nat cx) = length (g ! nat cx)" using s by (simp add: same_shape_def)
    then show ?thesis using s by (simp add: in_range_def same_shape_def)
  next
    case False
    then show ?thesis using s by (auto simp: in_range_def same_shape_def)
  qed
qed

lemma grid_height_shape: "same_shape g g' \<Longrightarrow> grid_height g' = grid_height g"
proof (cases g)
  case Nil
  assume "same_shape g g'"
  then show ?thesis using Nil by (simp add: same_shape_def grid_height_def)
next
  case (Cons a as)
  assume s: "same_shape g g'"
  then obtain b bs where g': "g' = b # bs" using Cons by (cases g') (simp_all add: same_shape_def)
  have "length (g' ! 0) = length (g ! 0)" using s Cons by (simp add: same_shape_def)
  then show ?thesis using Cons g' by (simp add: grid_height_def)
qed

lemma rect_iff: "rect g \<longleftrightarrow> (\<forall>i < length g. int (length (g ! i)) = grid_height g)"
  unfolding rect_def by (simp add: all_set_conv_all_nth)

lemma rect_shape: "same_shape g g' \<Longrightarrow> rect g' = rect g"
proof -
  assume s: "same_shape g g'"
  show ?thesis unfolding rect_iff grid_height_shape[OF s]
    using s by (simp add: same_shape_def)
qed

lemma in_grid_shape: "same_shape g g' \<Longrightarrow> in_grid g' h cx y = in_grid g h cx y"
  by (simp add: in_grid_def same_shape_def)

lemma rect_in_range: "rect g \<Longrightarrow> in_grid g (grid_height g) cx y \<Longrightarrow> in_range g cx y"
proof -
  assume r: "rect g" and i: "in_grid g (grid_height g) cx y"
  have "nat cx < length g" using i unfolding in_grid_def by arith
  then have "int (length (g ! nat cx)) = grid_height g" using r by (simp add: rect_iff)
  then show ?thesis using i by (simp add: in_grid_def in_range_def)
qed

lemma cell_get_set:
  "cell_set g cx y v = Some g' \<Longrightarrow>
   cell_get g' c r = (if c = cx \<and> r = y then Some v else cell_get g c r)"
proof -
  assume a: "cell_set g cx y v = Some g'"
  then have ir: "in_range g cx y" and g': "g' = g[nat cx := (g ! nat cx)[nat y := v]]"
    by (simp_all add: cell_set_def split: if_splits)
  have sh: "in_range g' c r = in_range g c r"
    by (rule in_range_shape[OF cell_set_shape[OF a]])
  show ?thesis
  proof (cases "in_range g c r")
    case False
    then show ?thesis using sh ir by (auto simp: cell_get_def)
  next
    case True
    have cx: "nat cx < length g" "nat y < length (g ! nat cx)" "0 \<le> cx" "0 \<le> y"
      using ir unfolding in_range_def by arith+
    have c: "nat c < length g" "nat r < length (g ! nat c)"  "0 \<le> c" "0 \<le> r"
      using True unfolding in_range_def by arith+
    have eqc: "(nat cx = nat c) = (c = cx)" using cx c by auto
    have eqr: "(nat y = nat r) = (r = y)" using cx c by auto
    have "g' ! nat c ! nat r = (if c = cx \<and> r = y then v else g ! nat c ! nat r)"
      unfolding g' using cx(1,2) c(1,2) by (auto simp: nth_list_update eqc eqr)
    then show ?thesis using sh True by (simp add: cell_get_def)
  qed
qed






lemma rc_same_shape_refl: "rc_same_shape rc rc"
  by (simp add: rc_same_shape_def same_shape_refl split: option.splits)

lemma rc_same_shape_trans:
  "rc_same_shape a b \<Longrightarrow> rc_same_shape b c \<Longrightarrow> rc_same_shape a c"
  unfolding rc_same_shape_def
  by (auto split: option.splits intro: same_shape_trans)

lemma rc_ok_shape: "rc_same_shape rc rc' \<Longrightarrow> rc_ok rc' = rc_ok rc"
  unfolding rc_same_shape_def rc_ok_def
  by (auto split: option.splits simp: rect_shape)

lemma append_selector_Some:
  assumes "append_selector cv h lw y ch = Some cv'"
  shows "same_shape cv cv'"
    and "cell_get cv' c r =
           (if in_grid cv h lw y \<and> c = lw \<and> r = y
            then map_option (\<lambda>old. old @ ch) (cell_get cv c r) else cell_get cv c r)"
proof -
  show "same_shape cv cv'"
    using assms unfolding append_selector_def
    by (auto split: if_splits Option.bind_splits dest: cell_set_shape simp: same_shape_refl)
  show "cell_get cv' c r =
           (if in_grid cv h lw y \<and> c = lw \<and> r = y
            then map_option (\<lambda>old. old @ ch) (cell_get cv c r) else cell_get cv c r)"
  proof (cases "in_grid cv h lw y")
    case False
    then show ?thesis using assms by (simp add: append_selector_def)
  next
    case True
    then obtain old where o: "cell_get cv lw y = Some old" and s: "cell_set cv lw y (old @ ch) = Some cv'"
      using assms unfolding append_selector_def by (auto split: Option.bind_splits)
    show ?thesis using True o cell_get_set[OF s, of c r] by simp
  qed
qed

lemma append_selector_total:
  assumes "rect cv" "grid_height cv = h"
  shows "\<exists>cv'. append_selector cv h lw y ch = Some cv'"
proof (cases "in_grid cv h lw y")
  case False
  then show ?thesis by (simp add: append_selector_def)
next
  case True
  then have "in_range cv lw y" using assms rect_in_range by blast
  then show ?thesis using True by (simp add: append_selector_def cell_get_def cell_set_def)
qed

lemma write_pad_Some:
  assumes "write_pad cv h px y = Some cv'"
  shows "same_shape cv cv'"
    and "cell_get cv' c r =
           (if in_grid cv h px y \<and> c = px \<and> r = y then Some CJK_PAD else cell_get cv c r)"
proof -
  show "same_shape cv cv'"
    using assms unfolding write_pad_def
    by (auto split: if_splits dest: cell_set_shape simp: same_shape_refl)
  show "cell_get cv' c r =
           (if in_grid cv h px y \<and> c = px \<and> r = y then Some CJK_PAD else cell_get cv c r)"
    using assms unfolding write_pad_def
    by (auto split: if_splits simp: cell_get_set)
qed

lemma write_pad_total:
  assumes "rect cv" "grid_height cv = h"
  shows "\<exists>cv'. write_pad cv h px y = Some cv'"
proof (cases "in_grid cv h px y")
  case False
  then show ?thesis by (simp add: write_pad_def)
next
  case True
  then have "in_range cv px y" using assms rect_in_range by blast
  then show ?thesis using True by (simp add: write_pad_def cell_set_def)
qed

lemma tag_role_Some:
  assumes "tag_role rc role cx y = Some rc'"
  shows "rc_same_shape rc rc'"
    and "c \<noteq> cx \<or> r \<noteq> y \<Longrightarrow> rc_get rc' c r = rc_get rc c r"
proof -
  show "rc_same_shape rc rc'"
    using assms unfolding tag_role_def rc_same_shape_def
    by (auto split: option.splits if_splits dest: cell_set_shape simp: same_shape_refl)
  show "c \<noteq> cx \<or> r \<noteq> y \<Longrightarrow> rc_get rc' c r = rc_get rc c r"
    using assms unfolding tag_role_def rc_get_def
    by (auto split: option.splits if_splits simp: cell_get_set)
qed

lemma tag_role_total:
  assumes "rc_ok rc" "0 \<le> cx" "0 \<le> y"
  shows "\<exists>rc'. tag_role rc role cx y = Some rc'"
proof (cases rc)
  case None
  then show ?thesis by (simp add: tag_role_def)
next
  case (Some rg)
  show ?thesis
  proof (cases role)
    case None
    then show ?thesis using Some by (simp add: tag_role_def)
  next
    case (Some r)
    show ?thesis
    proof (cases "cx < int (length rg) \<and> y < grid_height rg")
      case False
      then show ?thesis using Some \<open>rc = Some rg\<close> by (auto simp add: tag_role_def)
    next
      case True
      have "rect rg" using assms(1) \<open>rc = Some rg\<close> by (simp add: rc_ok_def)
      moreover have "nat cx < length rg" using True assms(2) by arith
      ultimately have "int (length (rg ! nat cx)) = grid_height rg" by (simp add: rect_iff)
      then have "in_range rg cx y" using True assms by (simp add: in_range_def)
      then show ?thesis using Some \<open>rc = Some rg\<close> True by (simp add: tag_role_def cell_set_def)
    qed
  qed
qed


lemma put_glyph_Some:
  assumes "put_glyph f role h cv rc cx y ch = Some (cv', rc', written)"
  shows "written = written_cond f h cv cx y"
    and "same_shape cv cv'"
    and "rc_same_shape rc rc'"
    and "cell_get cv' c r = (if written \<and> c = cx \<and> r = y then Some ch else cell_get cv c r)"
    and "c \<noteq> cx \<or> r \<noteq> y \<Longrightarrow> rc_get rc' c r = rc_get rc c r"
    and "\<not> written \<Longrightarrow> cv' = cv \<and> rc' = rc"
proof -
  consider (skip) "cv' = cv" "rc' = rc" "\<not> written" "\<not> written_cond f h cv cx y"
    | (put) "written" "written_cond f h cv cx y" "cell_set cv cx y ch = Some cv'"
        "tag_role rc role cx y = Some rc'"
    using assms unfolding put_glyph_def written_cond_def
    by (auto split: if_splits Option.bind_splits)
  note cs = this
  show "written = written_cond f h cv cx y" using cs by cases simp_all
  show "same_shape cv cv'" using cs by cases (simp_all add: same_shape_refl cell_set_shape)
  show "rc_same_shape rc rc'" using cs by cases (simp_all add: rc_same_shape_refl tag_role_Some(1))
  show "cell_get cv' c r = (if written \<and> c = cx \<and> r = y then Some ch else cell_get cv c r)"
    using cs by cases (simp_all add: cell_get_set)
  show "c \<noteq> cx \<or> r \<noteq> y \<Longrightarrow> rc_get rc' c r = rc_get rc c r"
    using cs by cases (simp_all add: tag_role_Some(2))
  show "\<not> written \<Longrightarrow> cv' = cv \<and> rc' = rc" using cs by cases simp_all
qed

lemma put_glyph_total:
  assumes "rect cv" "grid_height cv = h" "rc_ok rc"
  shows "\<exists>res. put_glyph f role h cv rc cx y ch = Some res"
proof (cases "in_grid cv h cx y")
  case False
  then show ?thesis by (auto simp: put_glyph_def)
next
  case True
  then have ir: "in_range cv cx y" using assms rect_in_range by blast
  have pos: "0 \<le> cx" "0 \<le> y" using True by (simp_all add: in_grid_def)
  obtain rc' where t: "tag_role rc role cx y = Some rc'"
    using tag_role_total[OF assms(3) pos] by blast
  show ?thesis using True ir t
    by (auto simp: put_glyph_def cell_get_def cell_set_def)
qed

text \<open>The selector iteration.\<close>

lemma draw_step_selector:
  assumes "draw_step x y f role h st 0xfe0f = Some st'"
  shows "roleCanvas st' = roleCanvas st"
    and "lastWrittenCx st' = lastWrittenCx st"
    and "lastWasFullwidth st' = True"
    and "offset st' = (if lastWasFullwidth st then offset st else offset st + 1)"
    and "same_shape (canvas st) (canvas st')"
    and "cell_get (canvas st') c r =
          (if \<not> lastWasFullwidth st \<and> in_grid (canvas st) h (x + offset st) y
               \<and> c = x + offset st \<and> r = y
           then Some CJK_PAD
           else if in_grid (canvas st) h (lastWrittenCx st) y \<and> c = lastWrittenCx st \<and> r = y
           then map_option (\<lambda>old. old @ [0xfe0f]) (cell_get (canvas st) c r)
           else cell_get (canvas st) c r)"
proof -
  obtain cv1 where a: "append_selector (canvas st) h (lastWrittenCx st) y [0xfe0f] = Some cv1"
    using assms unfolding draw_step_def by (auto split: Option.bind_splits)
  note a1 = append_selector_Some[OF a]
  consider (wide) "lastWasFullwidth st" "st' = st\<lparr>canvas := cv1\<rparr>"
    | (narrow) cv2 where "\<not> lastWasFullwidth st" "write_pad cv1 h (x + offset st) y = Some cv2"
        "st' = st\<lparr>canvas := cv2, offset := offset st + 1, lastWasFullwidth := True\<rparr>"
    using assms a unfolding draw_step_def by (auto split: Option.bind_splits if_splits)
  note cs = this
  show "roleCanvas st' = roleCanvas st" using cs by cases simp_all
  show "lastWrittenCx st' = lastWrittenCx st" using cs by cases simp_all
  show "lastWasFullwidth st' = True" using cs by cases simp_all
  show "offset st' = (if lastWasFullwidth st then offset st else offset st + 1)"
    using cs by cases simp_all
  show "same_shape (canvas st) (canvas st')"
    using cs
  proof cases
    case wide
    then show ?thesis using a1(1) by simp
  next
    case narrow
    then show ?thesis using a1(1) write_pad_Some(1)[OF narrow(2)] by (simp add: same_shape_trans)
  qed
  show "cell_get (canvas st') c r =
          (if \<not> lastWasFullwidth st \<and> in_grid (canvas st) h (x + offset st) y
               \<and> c = x + offset st \<and> r = y
           then Some CJK_PAD
           else if in_grid (canvas st) h (lastWrittenCx st) y \<and> c = lastWrittenCx st \<and> r = y
           then map_option (\<lambda>old. old @ [0xfe0f]) (cell_get (canvas st) c r)
           else cell_get (canvas st) c r)"
    using cs
  proof cases
    case wide
    then show ?thesis by (simp add: a1(2))
  next
    case narrow
    have "in_grid cv1 h (x + offset st) y = in_grid (canvas st) h (x + offset st) y"
      by (rule in_grid_shape[OF a1(1)])
    then show ?thesis using narrow(1,3) by (simp add: a1(2) write_pad_Some(2)[OF narrow(2)])
  qed
qed

text \<open>The iteration on any other zero-width code point.\<close>

lemma draw_step_zero:
  assumes "code \<noteq> 0xfe0f" "isZeroWidth code"
  shows "draw_step x y f role h st code = Some st"
  using assms by (simp add: draw_step_def)

text \<open>The iteration on a glyph.\<close>

lemma draw_step_glyph:
  assumes "draw_step x y f role h st code = Some st'" "code \<noteq> 0xfe0f" "\<not> isZeroWidth code"
  defines "cx \<equiv> x + offset st"
  defines "written \<equiv> written_cond f h (canvas st) cx y"
  shows "lastWrittenCx st' = (if written then cx else lastWrittenCx st)"
    and "lastWasFullwidth st' = isFullwidthChar code"
    and "offset st' = offset st + (if isFullwidthChar code then 2 else 1)"
    and "same_shape (canvas st) (canvas st')"
    and "rc_same_shape (roleCanvas st) (roleCanvas st')"
    and "cell_get (canvas st') c r =
          (if written \<and> isFullwidthChar code \<and> in_grid (canvas st) h (cx + 1) y
               \<and> c = cx + 1 \<and> r = y
           then Some CJK_PAD
           else if written \<and> c = cx \<and> r = y then Some [code]
           else cell_get (canvas st) c r)"
    and "c \<noteq> cx \<or> r \<noteq> y \<Longrightarrow> rc_get (roleCanvas st') c r = rc_get (roleCanvas st) c r"
    and "\<not> written \<Longrightarrow> canvas st' = canvas st \<and> roleCanvas st' = roleCanvas st"
proof -
  obtain cv1 rc1 wr where
    p: "put_glyph f role h (canvas st) (roleCanvas st) cx y [code] = Some (cv1, rc1, wr)"
    using assms(1-3) unfolding draw_step_def cx_def
    by (auto split: Option.bind_splits)
  note p1 = put_glyph_Some[OF p]
  have wr: "wr = written" using p1(1) by (simp add: written_def)
  consider (wide) cv2 where "isFullwidthChar code"
      "(if wr then write_pad cv1 h (x + (offset st + 1)) y else Some cv1) = Some cv2"
      "st' = \<lparr>canvas = cv2, roleCanvas = rc1, offset = offset st + 2,
              lastWrittenCx = (if wr then cx else lastWrittenCx st), lastWasFullwidth = True\<rparr>"
    | (narrow) "\<not> isFullwidthChar code"
      "st' = \<lparr>canvas = cv1, roleCanvas = rc1, offset = offset st + 1,
              lastWrittenCx = (if wr then cx else lastWrittenCx st), lastWasFullwidth = False\<rparr>"
    using assms(1-3) p unfolding draw_step_def cx_def
    by (auto split: Option.bind_splits if_splits simp: Let_def)
  note cs = this
  show "lastWrittenCx st' = (if written then cx else lastWrittenCx st)"
    using cs wr by cases simp_all
  show "lastWasFullwidth st' = isFullwidthChar code" using cs by cases simp_all
  show "offset st' = offset st + (if isFullwidthChar code then 2 else 1)"
    using cs by cases simp_all
  show "rc_same_shape (roleCanvas st) (roleCanvas st')" using cs p1(3) by cases simp_all
  show "c \<noteq> cx \<or> r \<noteq> y \<Longrightarrow> rc_get (roleCanvas st') c r = rc_get (roleCanvas st) c r"
    using cs p1(5)[of c r] by cases simp_all
  show "same_shape (canvas st) (canvas st')"
    using cs
  proof cases
    case wide
    then show ?thesis using p1(2) write_pad_Some(1)[of cv1 h "x + (offset st + 1)" y cv2]
      by (cases wr) (auto intro: same_shape_trans)
  next
    case narrow
    then show ?thesis using p1(2) by simp
  qed
  show "\<not> written \<Longrightarrow> canvas st' = canvas st \<and> roleCanvas st' = roleCanvas st"
    using cs p1(6) wr by cases auto
  show "cell_get (canvas st') c r =
          (if written \<and> isFullwidthChar code \<and> in_grid (canvas st) h (cx + 1) y
               \<and> c = cx + 1 \<and> r = y
           then Some CJK_PAD
           else if written \<and> c = cx \<and> r = y then Some [code]
           else cell_get (canvas st) c r)"
    using cs
  proof cases
    case wide
    show ?thesis
    proof (cases wr)
      case True
      then have w: "write_pad cv1 h (cx + 1) y = Some cv2" using wide(2) by (simp add: cx_def add.assoc)
      have "in_grid cv1 h (cx + 1) y = in_grid (canvas st) h (cx + 1) y"
        by (rule in_grid_shape[OF p1(2)])
      then show ?thesis using wide(1,3) True wr by (simp add: write_pad_Some(2)[OF w] p1(4))
    next
      case False
      then have "cv2 = cv1" using wide(2) by simp
      then show ?thesis using wide(1,3) False wr by (simp add: p1(4))
    qed
  next
    case narrow
    then show ?thesis using wr by (simp add: p1(4))
  qed
qed

lemma draw_step_total:
  assumes "rect (canvas st)" "grid_height (canvas st) = h" "rc_ok (roleCanvas st)"
  shows "\<exists>st'. draw_step x y f role h st code = Some st'"
proof -
  consider (sel) "code = 0xfe0f" | (zero) "code \<noteq> 0xfe0f" "isZeroWidth code"
    | (glyph) "code \<noteq> 0xfe0f" "\<not> isZeroWidth code" by blast
  then show ?thesis
  proof cases
    case sel
    obtain cv1 where a: "append_selector (canvas st) h (lastWrittenCx st) y [code] = Some cv1"
      using append_selector_total[OF assms(1,2)] by blast
    have s: "same_shape (canvas st) cv1" by (rule append_selector_Some(1)[OF a])
    have "rect cv1" "grid_height cv1 = h"
      using assms s by (simp_all add: rect_shape grid_height_shape)
    then obtain cv2 where "write_pad cv1 h (x + offset st) y = Some cv2"
      using write_pad_total by blast
    then show ?thesis using sel a by (simp add: draw_step_def)
  next
    case zero
    then show ?thesis by (simp add: draw_step_def)
  next
    case glyph
    obtain cv1 rc1 wr where
      p: "put_glyph f role h (canvas st) (roleCanvas st) (x + offset st) y [code] = Some (cv1, rc1, wr)"
      using put_glyph_total[OF assms] by (metis prod_cases3)
    have s: "same_shape (canvas st) cv1" by (rule put_glyph_Some(2)[OF p])
    have "rect cv1" "grid_height cv1 = h"
      using assms s by (simp_all add: rect_shape grid_height_shape)
    then obtain cv2 where "write_pad cv1 h (x + (offset st + 1)) y = Some cv2"
      using write_pad_total by blast
    then show ?thesis using glyph p by (cases wr) (auto simp: draw_step_def Let_def)
  qed
qed


lemma draw_loop_append:
  "draw_loop x y f role h st (a @ b) =
     (case draw_loop x y f role h st a of None \<Rightarrow> None | Some s \<Rightarrow> draw_loop x y f role h s b)"
  by (induction a arbitrary: st) (simp_all split: option.splits)

lemma draw_loop_snoc:
  "draw_loop x y f role h st (a @ [c]) =
     (case draw_loop x y f role h st a of None \<Rightarrow> None | Some s \<Rightarrow> draw_step x y f role h s c)"
  by (simp add: draw_loop_append split: option.splits)

lemma draw_loop_invariant_obj:
  "draw_loop x y f role h st codes = Some st' \<Longrightarrow> P st \<Longrightarrow>
   (\<forall>s c s'. c \<in> set codes \<longrightarrow> P s \<longrightarrow> draw_step x y f role h s c = Some s' \<longrightarrow> P s') \<Longrightarrow>
   P st'"
proof (induction codes arbitrary: st)
  case Nil
  then show ?case by simp
next
  case (Cons c cs)
  from Cons.prems(1) obtain s1 where
    s1: "draw_step x y f role h st c = Some s1" and l: "draw_loop x y f role h s1 cs = Some st'"
    by (auto split: option.splits)
  have "c \<in> set (c # cs)" by simp
  then have p1: "P s1" using Cons.prems(2,3) s1 by blast
  have "\<forall>s ca s'. ca \<in> set cs \<longrightarrow> P s \<longrightarrow> draw_step x y f role h s ca = Some s' \<longrightarrow> P s'"
    using Cons.prems(3) by (meson list.set_intros(2))
  then show ?case using Cons.IH[OF l p1] by blast
qed

lemma draw_loop_invariant:
  assumes "draw_loop x y f role h st codes = Some st'"
    and "P st"
    and "\<And>s c s'. c \<in> set codes \<Longrightarrow> P s \<Longrightarrow> draw_step x y f role h s c = Some s' \<Longrightarrow> P s'"
  shows "P st'"
  using draw_loop_invariant_obj[of x y f role h st codes st' P] assms by blast

lemma draw_step_shape:
  assumes "draw_step x y f role h st code = Some st'"
  shows "same_shape (canvas st) (canvas st')" and "rc_same_shape (roleCanvas st) (roleCanvas st')"
proof -
  consider (sel) "code = 0xfe0f" | (zero) "code \<noteq> 0xfe0f" "isZeroWidth code"
    | (glyph) "code \<noteq> 0xfe0f" "\<not> isZeroWidth code" by blast
  note cs = this
  show "same_shape (canvas st) (canvas st')"
    using cs
  proof cases
    case sel
    then show ?thesis using assms draw_step_selector(5) by blast
  next
    case zero
    then show ?thesis using assms by (simp add: draw_step_zero same_shape_refl)
  next
    case glyph
    then show ?thesis using assms draw_step_glyph(4) by blast
  qed
  show "rc_same_shape (roleCanvas st) (roleCanvas st')"
    using cs
  proof cases
    case sel
    then show ?thesis using assms draw_step_selector(1)[of x y f role h st st']
      by (simp add: rc_same_shape_refl)
  next
    case zero
    then show ?thesis using assms by (simp add: draw_step_zero rc_same_shape_refl)
  next
    case glyph
    then show ?thesis using assms draw_step_glyph(5) by blast
  qed
qed


lemma draw_step_grids_ok:
  assumes "grids_ok h st" "draw_step x y f role h st code = Some st'"
  shows "grids_ok h st'"
  using assms draw_step_shape[OF assms(2)]
  by (simp add: grids_ok_def rect_shape grid_height_shape rc_ok_shape)

lemma draw_loop_total:
  assumes "grids_ok h st"
  shows "\<exists>st'. draw_loop x y f role h st codes = Some st'"
  using assms
proof (induction codes arbitrary: st)
  case Nil
  then show ?case by simp
next
  case (Cons c cs)
  obtain s1 where s1: "draw_step x y f role h st c = Some s1"
    using draw_step_total Cons.prems unfolding grids_ok_def by blast
  have "grids_ok h s1" using draw_step_grids_ok[OF Cons.prems s1] .
  then show ?case using Cons.IH s1 by simp
qed

lemma draw_loop_shape:
  assumes "draw_loop x y f role h st codes = Some st'"
  shows "same_shape (canvas st) (canvas st') \<and> rc_same_shape (roleCanvas st) (roleCanvas st')"
proof (rule draw_loop_invariant[OF assms, where P = "\<lambda>s. same_shape (canvas st) (canvas s) \<and> rc_same_shape (roleCanvas st) (roleCanvas s)"])
  show "same_shape (canvas st) (canvas st) \<and> rc_same_shape (roleCanvas st) (roleCanvas st)"
    by (simp add: same_shape_refl rc_same_shape_refl)
next
  fix s c s'
  assume "same_shape (canvas st) (canvas s) \<and> rc_same_shape (roleCanvas st) (roleCanvas s)"
    and "draw_step x y f role h s c = Some s'"
  then show "same_shape (canvas st) (canvas s') \<and> rc_same_shape (roleCanvas st) (roleCanvas s')"
    using draw_step_shape[of x y f role h s c s']
    by (auto intro: same_shape_trans rc_same_shape_trans)
qed

lemma draw_init_ok: "rect cv \<Longrightarrow> rc_ok rc \<Longrightarrow> grids_ok (grid_height cv) (draw_init cv rc)"
  by (simp add: grids_ok_def draw_init_def)

text \<open>Row frame of one step\<close>

lemma draw_step_row:
  assumes "draw_step x y f role h st code = Some st'" "r \<noteq> y"
  shows "cell_get (canvas st') c r = cell_get (canvas st) c r"
    and "rc_get (roleCanvas st') c r = rc_get (roleCanvas st) c r"
proof -
  consider (sel) "code = 0xfe0f" | (zero) "code \<noteq> 0xfe0f" "isZeroWidth code"
    | (glyph) "code \<noteq> 0xfe0f" "\<not> isZeroWidth code" by blast
  note cs = this
  show "cell_get (canvas st') c r = cell_get (canvas st) c r"
    using cs
  proof cases
    case sel
    then show ?thesis using assms draw_step_selector(6)[of x y f role h st st' c r] by simp
  next
    case zero
    then show ?thesis using assms by (simp add: draw_step_zero)
  next
    case glyph
    then show ?thesis using assms draw_step_glyph(6)[of x y f role h st code st' c r] by simp
  qed
  show "rc_get (roleCanvas st') c r = rc_get (roleCanvas st) c r"
    using cs
  proof cases
    case sel
    then show ?thesis using assms draw_step_selector(1)[of x y f role h st st'] by simp
  next
    case zero
    then show ?thesis using assms by (simp add: draw_step_zero)
  next
    case glyph
    then show ?thesis using assms draw_step_glyph(7)[of x y f role h st code st' c r] by simp
  qed
qed

text \<open>
  When neither the last written column nor the target column is in bounds, an iteration
  writes nothing; so a call whose row is out of bounds, or whose start column lies to the
  right of the grid, writes nothing.
\<close>

lemma draw_step_outside:
  assumes st: "draw_step x y f role h st code = Some st'"
    and nl: "\<not> in_grid (canvas st) h (lastWrittenCx st) y"
    and nt: "\<not> in_grid (canvas st) h (x + offset st) y"
  shows "canvas st' = canvas st" and "roleCanvas st' = roleCanvas st"
    and "lastWrittenCx st' = lastWrittenCx st" and "offset st \<le> offset st'"
proof -
  consider (sel) "code = 0xfe0f" | (zero) "code \<noteq> 0xfe0f" "isZeroWidth code"
    | (glyph) "code \<noteq> 0xfe0f" "\<not> isZeroWidth code" by blast
  then have "canvas st' = canvas st \<and> roleCanvas st' = roleCanvas st
             \<and> lastWrittenCx st' = lastWrittenCx st \<and> offset st \<le> offset st'"
  proof cases
    case sel
    then show ?thesis using st nl nt
      by (auto simp: draw_step_def append_selector_def write_pad_def split: if_splits)
  next
    case zero
    then show ?thesis using st by (simp add: draw_step_zero)
  next
    case glyph
    have "\<not> written_cond f h (canvas st) (x + offset st) y" using nt by (simp add: written_cond_def)
    then show ?thesis using draw_step_glyph(1,3,8)[OF st glyph] by simp
  qed
  then show "canvas st' = canvas st" and "roleCanvas st' = roleCanvas st"
    and "lastWrittenCx st' = lastWrittenCx st" and "offset st \<le> offset st'" by simp_all
qed

lemma draw_loop_outside:
  assumes l: "draw_loop x y f role h (draw_init cv rc) codes = Some st'"
    and out: "\<not> (0 \<le> y \<and> y < h) \<or> int (length cv) \<le> x"
  shows "canvas st' = cv \<and> roleCanvas st' = rc"
proof -
  let ?P = "\<lambda>s. canvas s = cv \<and> roleCanvas s = rc \<and> lastWrittenCx s = - 1 \<and> 0 \<le> offset s"
  have "?P st'"
  proof (rule draw_loop_invariant[OF l, where P = ?P])
    show "?P (draw_init cv rc)" by (simp add: draw_init_def)
  next
    fix s c s'
    assume P: "?P s" and s: "draw_step x y f role h s c = Some s'"
    have nl: "\<not> in_grid (canvas s) h (lastWrittenCx s) y" using P by (simp add: in_grid_def)
    have nt: "\<not> in_grid (canvas s) h (x + offset s) y" using P out by (auto simp: in_grid_def)
    show "?P s'" using draw_step_outside[OF s nl nt] P by simp
  qed
  then show ?thesis by simp
qed

section \<open>Invariants of the loop of the writer\<close>








lemma wrote_glyph_at_snoc:
  "wrote_glyph_at x y f role h st0 pre c g \<Longrightarrow> wrote_glyph_at x y f role h st0 (pre @ [k]) c g"
  unfolding wrote_glyph_at_def
  by (metis append_Cons append_assoc)

lemma wrote_glyph_at_last:
  assumes "draw_loop x y f role h st0 pre = Some s" "g \<noteq> 0xfe0f" "\<not> isZeroWidth g"
    "written_cond f h (canvas s) (x + offset s) y"
  shows "wrote_glyph_at x y f role h st0 (pre @ [g]) (x + offset s) g"
  unfolding wrote_glyph_at_def using assms by blast

lemma step_own_cell:
  assumes l: "draw_loop x y f role h st0 pre = Some s"
    and st: "draw_step x y f role h s code = Some s'"
    and I: "lastWrittenCx s = - 1 \<or> (lastWrittenCx s < x + offset s \<and> own_cell x y f role h st0 pre s)"
  shows "lastWrittenCx s' = - 1
         \<or> (lastWrittenCx s' < x + offset s' \<and> own_cell x y f role h st0 (pre @ [code]) s')"
proof -
  consider (sel) "code = 0xfe0f" | (zero) "code \<noteq> 0xfe0f" "isZeroWidth code"
    | (glyph) "code \<noteq> 0xfe0f" "\<not> isZeroWidth code" by blast
  then show ?thesis
  proof cases
    case sel
    note e = draw_step_selector[OF st[unfolded sel]]
    show ?thesis
    proof (cases "lastWrittenCx s = - 1")
      case True
      then show ?thesis by (simp add: e(2))
    next
      case False
      then have lt: "lastWrittenCx s < x + offset s" and o: "own_cell x y f role h st0 pre s"
        using I by simp_all
      obtain g n where w: "wrote_glyph_at x y f role h st0 pre (lastWrittenCx s) g"
        and c: "cell_get (canvas s) (lastWrittenCx s) y = Some (g # replicate n 0xfe0f)"
        using o unfolding own_cell_def by blast
      have "cell_get (canvas s') (lastWrittenCx s) y =
              (if in_grid (canvas s) h (lastWrittenCx s) y
               then Some (g # replicate (Suc n) 0xfe0f) else Some (g # replicate n 0xfe0f))"
        using lt c by (simp add: e(6) replicate_append_same)
      then have "\<exists>m. cell_get (canvas s') (lastWrittenCx s') y = Some (g # replicate m 0xfe0f)"
        by (metis e(2))
      then have "own_cell x y f role h st0 (pre @ [code]) s'"
        unfolding own_cell_def using wrote_glyph_at_snoc[OF w] by (auto simp: e(2))
      moreover have "lastWrittenCx s' < x + offset s'" using lt by (simp add: e(2,4))
      ultimately show ?thesis by simp
    qed
  next
    case zero
    then have "s' = s" using st by (simp add: draw_step_zero)
    then show ?thesis using I wrote_glyph_at_snoc unfolding own_cell_def by blast
  next
    case glyph
    note e = draw_step_glyph[OF st glyph]
    show ?thesis
    proof (cases "written_cond f h (canvas s) (x + offset s) y")
      case True
      have "wrote_glyph_at x y f role h st0 (pre @ [code]) (x + offset s) code"
        by (rule wrote_glyph_at_last[OF l glyph True])
      moreover have "cell_get (canvas s') (x + offset s) y = Some (code # replicate 0 0xfe0f)"
        using True by (simp add: e(6))
      ultimately have "own_cell x y f role h st0 (pre @ [code]) s'"
        unfolding own_cell_def using True e(1) by metis
      then show ?thesis using True by (simp add: e(1,3))
    next
      case False
      then have same: "canvas s' = canvas s" "lastWrittenCx s' = lastWrittenCx s"
        using e(1,8) by simp_all
      show ?thesis
      proof (cases "lastWrittenCx s = - 1")
        case True
        then show ?thesis by (simp add: same)
      next
        case F: False
        then have lt: "lastWrittenCx s < x + offset s" and o: "own_cell x y f role h st0 pre s"
          using I by simp_all
        have "own_cell x y f role h st0 (pre @ [code]) s'"
          using o wrote_glyph_at_snoc unfolding own_cell_def same by blast
        then show ?thesis using lt by (simp add: same e(3))
      qed
    qed
  qed
qed

lemma loop_own_cell:
  "draw_loop x y f role h (draw_init cv rc) pre = Some s \<Longrightarrow>
   lastWrittenCx s = - 1
   \<or> (lastWrittenCx s < x + offset s \<and> own_cell x y f role h (draw_init cv rc) pre s)"
proof (induction pre arbitrary: s rule: rev_induct)
  case Nil
  then have "s = draw_init cv rc" by simp
  then show ?case by (simp add: draw_init_def)
next
  case (snoc code pre)
  from snoc.prems obtain s0 where
    l: "draw_loop x y f role h (draw_init cv rc) pre = Some s0"
    and st: "draw_step x y f role h s0 code = Some s"
    by (auto simp: draw_loop_snoc split: option.splits)
  show ?case by (rule step_own_cell[OF l st snoc.IH[OF l]])
qed






lemma upgrade_ok_init: "\<not> upgrade_ok x y h (draw_init cv rc)"
  by (simp add: upgrade_ok_def draw_init_def in_grid_def)

lemma upgrade_ok_after_glyph:
  assumes l: "draw_loop x y f role h (draw_init cv rc) pre = Some s"
    and st: "draw_step x y f role h s g = Some s'"
    and g: "g \<noteq> 0xfe0f" "\<not> isZeroWidth g"
  shows "upgrade_ok x y h s' \<longleftrightarrow>
           isFullwidthChar g \<or> written_cond f h (canvas s) (x + offset s) y"
proof -
  note e = draw_step_glyph[OF st g]
  note O = loop_own_cell[OF l]
  have ig: "in_grid (canvas s') h c y = in_grid (canvas s) h c y" for c
    by (rule in_grid_shape[OF e(4)])
  show ?thesis
  proof (cases "isFullwidthChar g")
    case True
    then show ?thesis by (simp add: upgrade_ok_def e(2))
  next
    case narrow: False
    show ?thesis
    proof (cases "written_cond f h (canvas s) (x + offset s) y")
      case True
      then have "in_grid (canvas s) h (x + offset s) y" by (simp add: written_cond_def)
      then show ?thesis using True narrow by (simp add: upgrade_ok_def e(1,2,3) ig)
    next
      case False
      have "\<not> (in_grid (canvas s) h (lastWrittenCx s) y \<and> lastWrittenCx s = x + offset s)"
        using O by (auto simp: in_grid_def)
      then show ?thesis using False narrow by (auto simp: upgrade_ok_def e(1,2,3) ig)
    qed
  qed
qed

text \<open>
  \<open>kept_or_own_pad\<close> is not met by a grid in which the sentinel of a blocked glyph has
  replaced the content of the next column.
\<close>

lemma kept_or_own_pad_not_blocked_pad:
  "\<not> kept_or_own_pad 0 0 (None :: unit option) 1 (draw_init [[[0x58]], [[0x59]]] None) [0x4e2d]
       [[[0x58]], [[0x59]]] [[[0x58]], [CJK_PAD]]"
proof
  assume a: "kept_or_own_pad 0 0 (None :: unit option) 1 (draw_init [[[0x58]], [[0x59]]] None) [0x4e2d]
       [[[0x58]], [[0x59]]] [[[0x58]], [CJK_PAD]]"
  have c: "cell_get [[[0x58]], [[0x59::int]]] 1 0 = Some [0x59]" "[0x59] \<noteq> SPACE"
    "cell_get [[[0x58]], [CJK_PAD]] 1 0 \<noteq> Some [0x59]"
    by code_simp+
  then obtain g where w: "wrote_glyph_at 0 0 False (None :: unit option) 1
       (draw_init [[[0x58]], [[0x59]]] None) [0x4e2d] (1 - 1) g"
    using a unfolding kept_or_own_pad_def by blast
  then obtain pre1 pre2 s1 where p: "[0x4e2d] = pre1 @ g # pre2"
    and l: "draw_loop 0 0 False (None :: unit option) 1 (draw_init [[[0x58]], [[0x59]]] None) pre1 = Some s1"
    and wc: "written_cond False 1 (canvas s1) (1 - 1) 0"
    unfolding wrote_glyph_at_def by blast
  from p have "pre1 = []" by (cases pre1) simp_all
  then have "s1 = draw_init [[[0x58]], [[0x59]]] None" using l by simp
  then show False using wc
    by (simp add: written_cond_def draw_init_def cell_get_def in_range_def SPACE_def)
qed

section \<open>The tables are disjoint where the loops rely on it\<close>

lemma isZeroWidth_selector: "isZeroWidth 0xfe0f"
  by (simp add: isZeroWidth_def)

lemma zero_cases:
  assumes "isZeroWidth c"
  shows "(0x300 \<le> c \<and> c \<le> 0x65f) \<or> (0x200b \<le> c \<and> c \<le> 0x200d) \<or>
         (0x20d0 \<le> c \<and> c \<le> 0x20ff) \<or> (0xfe00 \<le> c \<and> c \<le> 0xfe0f) \<or>
         c = 0xfeff \<or> (0xe0100 \<le> c \<and> c \<le> 0xe01ef)"
  using assms unfolding isZeroWidth_def by arith

lemma zero_not_modifiable: "isZeroWidth c \<Longrightarrow> \<not> isEmojiModifiable c"
  using zero_cases[of c] unfolding isEmojiModifiable_def by arith

lemma zero_not_fullwidth: "isZeroWidth c \<Longrightarrow> \<not> isFullwidthChar c"
  using zero_cases[of c] unfolding isFullwidthChar_def by arith

lemma dw_step_zero: "isZeroWidth z \<Longrightarrow> z \<noteq> 0xfe0f \<Longrightarrow> dw_step s z = s"
  by (simp add: dw_step_def split: prod.splits)

section \<open>Claims about the width accumulator\<close>

text \<open>
  C10. The exported predicate \<open>isZeroWidth\<close> is true of the emoji-presentation selector
  U+FE0F, which lies in the range U+FE00..U+FE0F of the variation selectors. Both loops test
  for U+FE0F before they consult the predicate, so they do not treat it as they treat the
  other zero-width code points: after the warning sign U+26A0 the selector adds a column in
  \<open>displayWidth\<close> and a padding cell in \<open>drawCJKText\<close>, while the variation selector
  U+FE00 adds nothing.
\<close>

theorem C10_selector_is_zero_width:
  "isZeroWidth 0xfe0f
   \<and> displayWidth [0x26a0, 0xfe0f] = 2 \<and> displayWidth [0x26a0, 0xfe00] = 1
   \<and> drawCJKText [[SPACE], [SPACE]] 0 0 [0x26a0, 0xfe0f] False (None :: unit RoleCanvas option) None
       = Some ([[[0x26a0, 0xfe0f]], [CJK_PAD]], None)
   \<and> drawCJKText [[SPACE], [SPACE]] 0 0 [0x26a0, 0xfe00] False (None :: unit RoleCanvas option) None
       = Some ([[[0x26a0]], [SPACE]], None)"
  by code_simp

text \<open>
  C4, as the claim states it, fails: in \<open>displayWidth\<close> a zero-width code point between an
  upgrade-eligible character and the selector does not stop the upgrade. For the warning sign
  U+26A0, the zero-width joiner U+200D and the selector, the step on the joiner leaves the
  lookback flag set and the width of the three code points is 2, not 1.
\<close>

theorem C4_counterexample:
  "isEmojiModifiable 0x26a0 \<and> \<not> isFullwidthChar 0x26a0 \<and> isZeroWidth 0x200d
   \<and> dw_step (1, True) 0x200d = (1, True)
   \<and> displayWidth [0x26a0, 0x200d, 0xfe0f] = 2"
  by code_simp

text \<open>
  C4, amended. In \<open>displayWidth\<close>, processing a zero-width code point other than the
  selector contributes 0 columns and leaves the lookback flag as it is. Consequently, for
  every upgrade-eligible single-width code point \<open>c\<close> and every zero-width code point \<open>z\<close>,
  the width of \<open>c\<close>, \<open>z\<close>, selector is 2: the upgrade of \<open>c\<close> fires across \<open>z\<close>.
\<close>

theorem C4_zero_width_keeps_flag:
  assumes "isEmojiModifiable c" "\<not> isFullwidthChar c" "isZeroWidth z"
  shows "(z \<noteq> 0xfe0f \<longrightarrow> dw_step (w, p) z = (w, p))
         \<and> displayWidth [c, z, 0xfe0f] = 2"
proof -
  have nz: "\<not> isZeroWidth c" using assms(1) zero_not_modifiable by blast
  then have ns: "c \<noteq> 0xfe0f" using isZeroWidth_selector by auto
  have "displayWidth [c, z, 0xfe0f] = 2"
    using assms nz ns by (simp add: displayWidth_def dw_step_def)
  then show ?thesis using assms(3) by (simp add: dw_step_zero)
qed

theorem C4_witness:
  "isEmojiModifiable 0x26a0 \<and> \<not> isFullwidthChar 0x26a0 \<and> isZeroWidth 0x200d
   \<and> (0x200d::int) \<noteq> 0xfe0f \<and> dw_step (1, True) 0x200d = (1, True)
   \<and> displayWidth [0x26a0, 0x200d, 0xfe0f] = 2"
  using C4_zero_width_keeps_flag[of "0x26a0" "0x200d" 1 True]
  by (simp add: isEmojiModifiable_def isFullwidthChar_def isZeroWidth_def)

text \<open>
  C5, as the claim states it, fails: the selector U+FE0F is itself a zero-width code point
  for \<open>isZeroWidth\<close>, and inserting it after the warning sign U+26A0 changes the width
  from 1 to 2.
\<close>

theorem C5_counterexample:
  "isZeroWidth 0xfe0f \<and> displayWidth [0x26a0] = 1
   \<and> displayWidth (take 1 [0x26a0] @ 0xfe0f # drop 1 [0x26a0]) = 2"
  by code_simp

text \<open>
  C5, amended. For every string \<open>s\<close>, every zero-width code point \<open>z\<close> other than the
  selector U+FE0F, and every position \<open>i\<close>, the width of \<open>s\<close> with \<open>z\<close> inserted at
  position \<open>i\<close> is the width of \<open>s\<close>.
\<close>

theorem C5_insert_zero_width:
  assumes "isZeroWidth z" "z \<noteq> 0xfe0f"
  shows "displayWidth (take i s @ z # drop i s) = displayWidth s"
proof -
  have "foldl dw_step (0, False) (take i s @ z # drop i s)
        = foldl dw_step (foldl dw_step (0, False) (take i s)) (drop i s)"
    using assms by (simp add: dw_step_zero)
  also have "\<dots> = foldl dw_step (0, False) (take i s @ drop i s)"
    by (simp only: foldl_append)
  finally show ?thesis by (simp add: displayWidth_def)
qed

theorem C5_witness:
  "isZeroWidth 0x200d \<and> (0x200d::int) \<noteq> 0xfe0f
   \<and> displayWidth (take 1 [0x26a0, 0xfe0f] @ 0x200d # drop 1 [0x26a0, 0xfe0f])
       = displayWidth [0x26a0, 0xfe0f]"
  using C5_insert_zero_width[of "0x200d" 1 "[0x26a0, 0xfe0f]"]
  by (simp add: isZeroWidth_def)

text \<open>
  C6, as the claim states it, fails: the watch U+231A is upgrade-eligible for
  \<open>isEmojiModifiable\<close> and also double-width for \<open>isFullwidthChar\<close>, so its width alone
  is 2, not 1.
\<close>

theorem C6_counterexample:
  "isEmojiModifiable 0x231a \<and> displayWidth [0x231a] = 2"
  by code_simp

text \<open>
  C6, amended. For every upgrade-eligible code point \<open>c\<close>, the width of \<open>c\<close> followed by
  the selector is 2, and the width of \<open>c\<close> alone is 1 unless \<open>c\<close> is also in the
  double-width table, in which case it is 2.
\<close>

theorem C6_upgrade_width:
  assumes "isEmojiModifiable c"
  shows "displayWidth [c, 0xfe0f] = 2
         \<and> displayWidth [c] = (if isFullwidthChar c then 2 else 1)"
proof -
  have nz: "\<not> isZeroWidth c" using assms zero_not_modifiable by blast
  then have ns: "c \<noteq> 0xfe0f" using isZeroWidth_selector by auto
  show ?thesis using assms nz ns by (simp add: displayWidth_def dw_step_def)
qed

theorem C6_witness:
  "isEmojiModifiable 0x26a0 \<and> displayWidth [0x26a0, 0xfe0f] = 2 \<and> displayWidth [0x26a0] = 1"
  using C6_upgrade_width[of "0x26a0"]
  by (simp add: isEmojiModifiable_def isFullwidthChar_def)

section \<open>Claims about the grid text writer\<close>

text \<open>
  C1 says that a padding sentinel is written only behind a glyph that the same call wrote.
  The selector branch (lines 237-244) writes the sentinel whenever \<open>lastWasFullwidth\<close> is
  false, without asking whether the glyph before it was written, whereas the double-width
  branch (lines 266-274) asks \<^verbatim>\<open>if (written)\<close>. On the one-row grid with cells \<open>X\<close> and \<open>Y\<close>,
  drawing U+26A0, U+FE0F at column 0 with overwrite disabled writes no glyph (cell 0 is
  occupied) and yet stores the sentinel in cell 1, over \<open>Y\<close>. Drawing the selector alone
  stores the sentinel in the start cell.
\<close>

theorem C1_pad_without_glyph:
  "drawCJKText [[[0x58]], [[0x59]]] 0 0 [0x26a0, 0xfe0f] False (None :: unit RoleCanvas option) None
     = Some ([[[0x58]], [CJK_PAD]], None)
   \<and> drawCJKText [[[0x59]]] 0 0 [0xfe0f] False (None :: unit RoleCanvas option) None
     = Some ([[CJK_PAD]], None)"
  by code_simp

text \<open>
  C7. When the step on a double-width glyph does not write it, because the target cell is
  out of bounds or because overwrite is disabled and the cell holds something other than a
  space, the step advances the offset by two columns and changes nothing else but
  \<open>lastWasFullwidth\<close>: neither grid is touched, so no padding sentinel is written, and
  \<open>lastWrittenCx\<close> keeps its value.
\<close>

theorem C7_blocked_double_width:
  assumes "isFullwidthChar code"
    and "\<not> in_grid (canvas st) h (x + offset st) y
         \<or> (\<not> forceOverwrite \<and> cell_get (canvas st) (x + offset st) y = Some old \<and> old \<noteq> SPACE)"
  shows "draw_step x y forceOverwrite role h st code
           = Some (st\<lparr>offset := offset st + 2, lastWasFullwidth := True\<rparr>)"
proof -
  have nz: "\<not> isZeroWidth code" using assms(1) zero_not_fullwidth by blast
  then have ns: "code \<noteq> 0xfe0f" using isZeroWidth_selector by auto
  have p: "put_glyph forceOverwrite role h (canvas st) (roleCanvas st) (x + offset st) y [code]
             = Some (canvas st, roleCanvas st, False)"
    using assms(2) by (auto simp: put_glyph_def)
  show ?thesis using nz ns p assms(1) by (simp add: draw_step_def)
qed

theorem C7_witness:
  "isFullwidthChar 0x4e2d
   \<and> \<not> in_grid [[SPACE]] 1 (0 + 5) 0
   \<and> draw_step 0 0 True (None :: unit option) 1
        \<lparr>canvas = [[SPACE]], roleCanvas = None, offset = 5, lastWrittenCx = - 1,
          lastWasFullwidth = False\<rparr> 0x4e2d
      = Some \<lparr>canvas = [[SPACE]], roleCanvas = None, offset = 7, lastWrittenCx = - 1,
          lastWasFullwidth = True\<rparr>
   \<and> cell_get [[[0x58]], [SPACE]] (0 + 0) 0 = Some [0x58] \<and> [0x58] \<noteq> SPACE
   \<and> draw_step 0 0 False (None :: unit option) 1
        \<lparr>canvas = [[[0x58]], [SPACE]], roleCanvas = None, offset = 0, lastWrittenCx = - 1,
          lastWasFullwidth = False\<rparr> 0x4e2d
      = Some \<lparr>canvas = [[[0x58]], [SPACE]], roleCanvas = None, offset = 2, lastWrittenCx = - 1,
          lastWasFullwidth = True\<rparr>"
  using
    C7_blocked_double_width[of "0x4e2d"
      "\<lparr>canvas = [[SPACE]], roleCanvas = None, offset = 5, lastWrittenCx = - 1,
        lastWasFullwidth = False\<rparr>" 1 0 0 True "[]" "None :: unit option"]
    C7_blocked_double_width[of "0x4e2d"
      "\<lparr>canvas = [[[0x58]], [SPACE]], roleCanvas = None, offset = 0, lastWrittenCx = - 1,
        lastWasFullwidth = False\<rparr>" 1 0 0 False "[0x58]" "None :: unit option"]
  by (simp add: isFullwidthChar_def in_grid_def cell_get_def in_range_def SPACE_def)

text \<open>
  C8. On a rectangular grid (and a rectangular style grid, when one is given)
  \<open>drawCJKText\<close> returns for every start column, row, text and mode: no access of the run
  falls outside the arrays, since such an access is \<open>None\<close> in the model. The grids keep
  their shape, so no cell outside them is created, and when the row is out of bounds or
  the start column lies to the right of the grid the call changes nothing at all.
\<close>

theorem C8_draw_in_bounds:
  assumes "rect cv" "rc_ok rc"
  shows "\<exists>cv' rc'. drawCJKText cv x y codes forceOverwrite rc role = Some (cv', rc')
           \<and> same_shape cv cv' \<and> rc_same_shape rc rc'
           \<and> (\<not> (0 \<le> y \<and> y < grid_height cv) \<or> int (length cv) \<le> x
                \<longrightarrow> cv' = cv \<and> rc' = rc)"
proof -
  let ?h = "grid_height cv"
  obtain st' where
    l: "draw_loop x y forceOverwrite role ?h (draw_init cv rc) codes = Some st'"
    using draw_loop_total[OF draw_init_ok[OF assms]] by blast
  have sh: "same_shape cv (canvas st') \<and> rc_same_shape rc (roleCanvas st')"
    using draw_loop_shape[OF l] by (simp add: draw_init_def)
  have out: "canvas st' = cv \<and> roleCanvas st' = rc"
    if "\<not> (0 \<le> y \<and> y < ?h) \<or> int (length cv) \<le> x"
    by (rule draw_loop_outside[OF l that])
  show ?thesis using l sh out by (simp add: drawCJKText_def)
qed

theorem C8_witness:
  "rect [[SPACE], [SPACE]] \<and> rc_ok (Some [[False], [False]])
   \<and> drawCJKText [[SPACE], [SPACE]] (- 1) 0 [0x4e2d, 0x41] True (Some [[False], [False]]) (Some True)
       = Some ([[SPACE], [[0x41]]], Some [[False], [True]])
   \<and> \<not> (0 \<le> (5::int) \<and> 5 < grid_height [[SPACE], [SPACE]])
   \<and> drawCJKText [[SPACE], [SPACE]] 0 5 [0x4e2d, 0x41] True (Some [[False], [False]]) (Some True)
       = Some ([[SPACE], [SPACE]], Some [[False], [False]])
   \<and> int (length [[SPACE], [SPACE]]) \<le> 2
   \<and> drawCJKText [[SPACE], [SPACE]] 2 0 [0x4e2d, 0x41] True (Some [[False], [False]]) (Some True)
       = Some ([[SPACE], [SPACE]], Some [[False], [False]])"
proof -
  have r: "rect [[SPACE], [SPACE]]" "rc_ok (Some [[False], [False]])"
    by (simp_all add: rect_def rc_ok_def grid_height_def)
  have e1: "drawCJKText [[SPACE], [SPACE]] (- 1) 0 [0x4e2d, 0x41] True
              (Some [[False], [False]]) (Some True)
            = Some ([[SPACE], [[0x41]]], Some [[False], [True]])"
    by code_simp
  have e2: "drawCJKText [[SPACE], [SPACE]] 0 5 [0x4e2d, 0x41] True
              (Some [[False], [False]]) (Some True)
            = Some ([[SPACE], [SPACE]], Some [[False], [False]])"
    by code_simp
  have e3: "drawCJKText [[SPACE], [SPACE]] 2 0 [0x4e2d, 0x41] True
              (Some [[False], [False]]) (Some True)
            = Some ([[SPACE], [SPACE]], Some [[False], [False]])"
    by code_simp
  show ?thesis
    using r e1 e2 e3
      C8_draw_in_bounds[OF r, of "- 1" 0 "[0x4e2d, 0x41]" True "Some True"]
      C8_draw_in_bounds[OF r, of 0 5 "[0x4e2d, 0x41]" True "Some True"]
      C8_draw_in_bounds[OF r, of 2 0 "[0x4e2d, 0x41]" True "Some True"]
    by (simp add: grid_height_def)
qed

text \<open>
  C9. \<open>drawCJKText\<close> changes cells of row \<open>y\<close> only: on rectangular grids the call
  returns, and every cell of the character grid and of the style grid whose row index
  differs from \<open>y\<close> reads after the call as it did before.
\<close>

theorem C9_draw_row_frame:
  assumes "rect cv" "rc_ok rc"
  shows "\<exists>cv' rc'. drawCJKText cv x y codes forceOverwrite rc role = Some (cv', rc')
           \<and> (\<forall>c r. r \<noteq> y \<longrightarrow> cell_get cv' c r = cell_get cv c r)
           \<and> (\<forall>c r. r \<noteq> y \<longrightarrow> rc_get rc' c r = rc_get rc c r)"
proof -
  let ?h = "grid_height cv"
  let ?P = "\<lambda>s. (\<forall>c r. r \<noteq> y \<longrightarrow> cell_get (canvas s) c r = cell_get cv c r)
           \<and> (\<forall>c r. r \<noteq> y \<longrightarrow> rc_get (roleCanvas s) c r = rc_get rc c r)"
  obtain st' where l: "draw_loop x y forceOverwrite role ?h (draw_init cv rc) codes = Some st'"
    using draw_loop_total[OF draw_init_ok[OF assms]] by blast
  have "?P st'"
  proof (rule draw_loop_invariant[OF l, where P = ?P])
    show "?P (draw_init cv rc)" by (simp add: draw_init_def)
  next
    fix s c s'
    assume "?P s" "draw_step x y forceOverwrite role ?h s c = Some s'"
    then show "?P s'" using draw_step_row by metis
  qed
  then show ?thesis using l by (simp add: drawCJKText_def)
qed

theorem C9_witness:
  "rect [[SPACE, [0x59]], [SPACE, SPACE]] \<and> rc_ok (Some [[False, False], [False, False]])
   \<and> drawCJKText [[SPACE, [0x59]], [SPACE, SPACE]] 0 0 [0x4e2d] False
        (Some [[False, False], [False, False]]) (Some True)
       = Some ([[[0x4e2d], [0x59]], [CJK_PAD, SPACE]], Some [[True, False], [False, False]])
   \<and> (1::int) \<noteq> 0
   \<and> cell_get [[[0x4e2d], [0x59]], [CJK_PAD, SPACE]] 0 1
       = cell_get [[SPACE, [0x59]], [SPACE, SPACE]] 0 1
   \<and> rc_get (Some [[True, False], [False, False]]) 0 1
       = rc_get (Some [[False, False], [False, False]]) 0 1"
proof -
  have r: "rect [[SPACE, [0x59]], [SPACE, SPACE]]" "rc_ok (Some [[False, False], [False, False]])"
    by (simp_all add: rect_def rc_ok_def grid_height_def)
  have e: "drawCJKText [[SPACE, [0x59]], [SPACE, SPACE]] 0 0 [0x4e2d] False
             (Some [[False, False], [False, False]]) (Some True)
           = Some ([[[0x4e2d], [0x59]], [CJK_PAD, SPACE]], Some [[True, False], [False, False]])"
    by code_simp
  show ?thesis
    using r e C9_draw_row_frame[OF r, of 0 0 "[0x4e2d]" False "Some True"]
    by simp
qed







end
